theory Spec2Isabelle
  imports Main "HOL-Library.Sublist"
begin

section \<open>The xref scraper: data model\<close>

text \<open>
  The embedding follows \<^verbatim>\<open>src/scraper.ts\<close>. JavaScript strings are modelled as
  \<^typ>\<open>string\<close>, one \<^typ>\<open>char\<close> per code unit; code units above 255 are outside the
  model. Field names carry a prefix per record type, because the source reuses the same
  property names (\<^verbatim>\<open>term\<close>, \<^verbatim>\<open>type\<close>, \<^verbatim>\<open>spec\<close>, \<^verbatim>\<open>shortname\<close>, \<^verbatim>\<open>for\<close>, ...) in several
  object shapes and some of them are reserved words of the logic.
\<close>

text \<open>
  Interface \<^verbatim>\<open>WebrefDfn\<close>. The property \<^verbatim>\<open>heading\<close> (an opaque object) is never read
  by the scraper and is left out.
\<close>

record WebrefDfn =
  dfn_id :: string
  dfn_href :: string
  dfn_linkingText :: "string list"
  dfn_localLinkingText :: "string list"
  dfn_type :: string
  dfn_for :: "string list"
  dfn_access :: string
  dfn_informative :: bool
  dfn_definedIn :: string

text \<open>Interface \<^verbatim>\<open>DfnSource\<close>: \<^verbatim>\<open>series\<close>, \<^verbatim>\<open>spec\<close>, \<^verbatim>\<open>url\<close>, \<^verbatim>\<open>dfns\<close>.\<close>

record DfnSource =
  src_series :: string
  src_spec :: string
  src_url :: string
  src_dfns :: "WebrefDfn list"

text \<open>
  \<^verbatim>\<open>ParsedDataEntry\<close>, the object literal returned by \<^verbatim>\<open>mapDefinition\<close>:
  \<^verbatim>\<open>term, isExported, type, spec, shortname, status, uri, normative, for\<close>.
  The property \<^verbatim>\<open>for\<close> is either a non-empty array or \<^verbatim>\<open>undefined\<close>.
\<close>

record ParsedDataEntry =
  pd_term :: string
  pd_isExported :: bool
  pd_type :: string
  pd_spec :: string
  pd_shortname :: string
  pd_status :: string
  pd_uri :: string
  pd_normative :: bool
  pd_for :: "string list option"

section \<open>String primitives of the host language\<close>

definition dquote :: char where
  "dquote = CHR 0x22"

text \<open>\<^verbatim>\<open>s.endsWith(x)\<close>.\<close>

definition endsWith :: "string \<Rightarrow> string \<Rightarrow> bool" where
  "endsWith s x = (length x \<le> length s \<and> drop (length s - length x) s = x)"

text \<open>
  \<^verbatim>\<open>term.replace(/^"|"$/g, '')\<close>. The global replace scans the string from index 0; at
  each index the alternation is tried left to right. \<^verbatim>\<open>^"\<close> can match only at index 0,
  \<^verbatim>\<open>"$\<close> only at the last index (there is no \<^verbatim>\<open>m\<close> flag). Every match is one
  character long and is replaced by the empty string; an unmatched character is copied.
  The flag says whether the scan is at index 0.
\<close>

fun replaceQuoteAnchors :: "bool \<Rightarrow> string \<Rightarrow> string" where
  "replaceQuoteAnchors atStart [] = []"
| "replaceQuoteAnchors atStart (c # cs) =
     (if c = dquote \<and> (atStart \<or> cs = [])
      then replaceQuoteAnchors False cs
      else c # replaceQuoteAnchors False cs)"

section \<open>Term normalizer\<close>

text \<open>
  \<^verbatim>\<open>
  function normalizeTerm(term: string, type: string) {
    if (type === 'enum-value') {
      return term.replace(/^"|"$/g, '');
    }
    if (type === 'method' && !term.endsWith(')')) {
      return term + '()';
    }
    return term;
  }
  \<close>
\<close>

definition normalizeTerm :: "string \<Rightarrow> string \<Rightarrow> string" where
  "normalizeTerm trm typ =
     (if typ = ''enum-value'' then replaceQuoteAnchors True trm
      else if typ = ''method'' \<and> \<not> endsWith trm '')'' then trm @ ''()''
      else trm)"

text \<open>
  The normalizer's contract in the specification's words: strip one leading and one
  trailing double-quote character if present.
\<close>

definition stripLeadingQuote :: "string \<Rightarrow> string" where
  "stripLeadingQuote s = (case s of [] \<Rightarrow> [] | c # cs \<Rightarrow> if c = dquote then cs else s)"

definition stripTrailingQuote :: "string \<Rightarrow> string" where
  "stripTrailingQuote s = (if s \<noteq> [] \<and> last s = dquote then butlast s else s)"

definition spec_unquote :: "string \<Rightarrow> string" where
  "spec_unquote s = stripTrailingQuote (stripLeadingQuote s)"

text \<open>
  \<^verbatim>\<open>href.replace(specurl, '')\<close> with a string pattern: the first occurrence of the
  pattern, wherever it is, is replaced (here by the empty string, which holds no
  \<^verbatim>\<open>$\<close> replacement pattern); without an occurrence the string is returned as it is.
\<close>

fun replaceFirst :: "string \<Rightarrow> string \<Rightarrow> string" where
  "replaceFirst pat [] = []"
| "replaceFirst pat (c # cs) =
     (if prefix pat (c # cs) then drop (length pat) (c # cs)
      else c # replaceFirst pat cs)"

text \<open>
  The regular expression \<^verbatim>\<open>/\(.+\)/\<close>. The dot matches every character but a line
  terminator (of those, line feed and carriage return are characters of the model).
\<close>

definition lineTerminator :: "char \<Rightarrow> bool" where
  "lineTerminator c = (c = CHR 0x0A \<or> c = CHR 0x0D)"

text \<open>Index of the last closing parenthesis of a string.\<close>

fun lastClose :: "string \<Rightarrow> nat option" where
  "lastClose [] = None"
| "lastClose (c # cs) =
     (case lastClose cs of
        Some j \<Rightarrow> Some (Suc j)
      | None \<Rightarrow> if c = CHR '')'' then Some 0 else None)"

text \<open>
  One match attempt of \<^verbatim>\<open>\(.+\)\<close> at the head of the remaining input: the length of
  the match, if there is one. After the opening parenthesis the greedy \<^verbatim>\<open>.+\<close> takes at
  least one character \<open>d\<close> and as much as it can of the characters up to the next line
  terminator, and gives back characters until a closing parenthesis follows: the match
  ends at the last closing parenthesis of that stretch after \<open>d\<close>.
\<close>

definition matchArgsHere :: "string \<Rightarrow> nat option" where
  "matchArgsHere s =
     (case s of
        [] \<Rightarrow> None
      | c # rest \<Rightarrow>
          if c \<noteq> CHR ''(''  then None
          else (case takeWhile (\<lambda>x. \<not> lineTerminator x) rest of
                  [] \<Rightarrow> None
                | d # run \<Rightarrow>
                    (case lastClose run of
                       None \<Rightarrow> None
                     | Some j \<Rightarrow> Some (j + 3))))"

text \<open>\<^verbatim>\<open>/\(.+\)/.test(term)\<close>: is there an index where the expression matches.\<close>

fun testArgs :: "string \<Rightarrow> bool" where
  "testArgs [] = False"
| "testArgs (c # cs) = (matchArgsHere (c # cs) \<noteq> None \<or> testArgs cs)"

text \<open>\<^verbatim>\<open>term.replace(/\(.+\)/, '()')\<close>: the leftmost match is replaced, once.\<close>

fun replaceArgs :: "string \<Rightarrow> string" where
  "replaceArgs [] = []"
| "replaceArgs (c # cs) =
     (case matchArgsHere (c # cs) of
        Some n \<Rightarrow> ''()'' @ drop n (c # cs)
      | None \<Rightarrow> c # replaceArgs cs)"

text \<open>
  The decomposition of a term that the argument-list expression picks, in words: the
  term is \<open>pre ( mid ) post\<close> with \<open>mid\<close> non-empty and free of line terminators, no
  such decomposition has a shorter \<open>pre\<close>, and for this \<open>pre\<close> none has a longer \<open>mid\<close>.
\<close>

definition leftmostGreedyArgs :: "string \<Rightarrow> string \<Rightarrow> string \<Rightarrow> string \<Rightarrow> bool" where
  "leftmostGreedyArgs t pre mid post \<longleftrightarrow>
     t = pre @ ''('' @ mid @ '')'' @ post \<and> mid \<noteq> [] \<and> (\<forall>c\<in>set mid. \<not> lineTerminator c)
     \<and> (\<forall>pre' mid' post'. t = pre' @ ''('' @ mid' @ '')'' @ post' \<and> mid' \<noteq> []
            \<and> (\<forall>c\<in>set mid'. \<not> lineTerminator c) \<longrightarrow> length pre \<le> length pre')
     \<and> (\<forall>mid' post'. t = pre @ ''('' @ mid' @ '')'' @ post'
            \<and> (\<forall>c\<in>set mid'. \<not> lineTerminator c) \<longrightarrow> length mid' \<le> length mid)"

section \<open>Definition mapper\<close>

text \<open>
  \<^verbatim>\<open>
  function mapDefinition(dfn, term, spec, series, specurl) {
    const normalizedType = CSS_TYPES_INPUT.has(dfn.type) ? `css-${dfn.type}` : dfn.type;
    return {
      term: normalizeTerm(term, normalizedType),
      isExported: dfn.access === 'public',
      type: normalizedType,
      spec,
      shortname: series,
      status: "current",
      uri: dfn.href.replace(specurl, ''),
      normative: !dfn.informative,
      for: dfn.for.length > 0 ? dfn.for : undefined,
    };
  }
  \<close>
  The constant \<^verbatim>\<open>CSS_TYPES_INPUT\<close> of \<^verbatim>\<open>./constants\<close> is a parameter.
\<close>

definition mapDefinition ::
  "string set \<Rightarrow> WebrefDfn \<Rightarrow> string \<Rightarrow> string \<Rightarrow> string \<Rightarrow> string \<Rightarrow> ParsedDataEntry" where
  "mapDefinition CSS_TYPES_INPUT dfn trm spec series specurl =
     (let normalizedType =
            (if dfn_type dfn \<in> CSS_TYPES_INPUT then ''css-'' @ dfn_type dfn else dfn_type dfn)
      in \<lparr> pd_term = normalizeTerm trm normalizedType,
           pd_isExported = (dfn_access dfn = ''public''),
           pd_type = normalizedType,
           pd_spec = spec,
           pd_shortname = series,
           pd_status = ''current'',
           pd_uri = replaceFirst specurl (dfn_href dfn),
           pd_normative = (\<not> dfn_informative dfn),
           pd_for = (if length (dfn_for dfn) > 0 then Some (dfn_for dfn) else None) \<rparr>)"

section \<open>Source parser\<close>

text \<open>
  Modelled from the spec: \<^verbatim>\<open>uniq\<close> of \<^verbatim>\<open>./utils\<close>, which is not among the sources.
  The specification says: deduplicate the list by full structural equality, order of
  first occurrence preserved.
\<close>

fun uniq :: "'a list \<Rightarrow> 'a list" where
  "uniq [] = []"
| "uniq (x # xs) = x # uniq (removeAll x xs)"

text \<open>The two nested loops of \<^verbatim>\<open>parseData\<close> that fill \<^verbatim>\<open>termData\<close>.\<close>

definition mapAll :: "string set \<Rightarrow> DfnSource \<Rightarrow> ParsedDataEntry list" where
  "mapAll CSS_TYPES_INPUT source =
     concat (map (\<lambda>dfn. map (\<lambda>trm. mapDefinition CSS_TYPES_INPUT dfn trm
                                     (src_spec source) (src_series source) (src_url source))
                             (dfn_linkingText dfn))
                 (src_dfns source))"

text \<open>
  \<^verbatim>\<open>
  function parseData(source: DfnSource, errorURIs: string[]) {
    const dfns = source.dfns;
    const termData = [];
    for (const dfn of dfns) {
      for (const term of dfn.linkingText) {
        const mapped = mapDefinition(dfn, term, source.spec, source.series, source.url);
        termData.push(mapped);
      }
    }
    const filtered = termData.filter(
      term => term.isExported && SUPPORTED_TYPES.has(term.type),
    );
    return uniq(filtered);
  }
  \<close>
  The array \<^verbatim>\<open>errorURIs\<close> is shared with the caller, so the model returns it beside
  the result. \<^verbatim>\<open>SUPPORTED_TYPES\<close> of \<^verbatim>\<open>./constants\<close> is a parameter.
\<close>

definition parseData ::
  "string set \<Rightarrow> string set \<Rightarrow> DfnSource \<Rightarrow> string list
     \<Rightarrow> ParsedDataEntry list \<times> string list" where
  "parseData SUPPORTED_TYPES CSS_TYPES_INPUT source errorURIs =
     (let termData = mapAll CSS_TYPES_INPUT source;
          filtered = filter (\<lambda>t. pd_isExported t \<and> pd_type t \<in> SUPPORTED_TYPES) termData
      in (uniq filtered, errorURIs))"

section \<open>Aggregators\<close>

text \<open>
  The rest objects of the two destructuring patterns:
  \<^verbatim>\<open>{ term, isExported, ...termData }\<close> and \<^verbatim>\<open>{ shortname, isExported, ...termData }\<close>.
\<close>

record TermEntry =
  te_type :: string
  te_spec :: string
  te_shortname :: string
  te_status :: string
  te_uri :: string
  te_normative :: bool
  te_for :: "string list option"

record SpecEntry =
  se_term :: string
  se_type :: string
  se_spec :: string
  se_status :: string
  se_uri :: string
  se_normative :: bool
  se_for :: "string list option"

definition termRest :: "ParsedDataEntry \<Rightarrow> TermEntry" where
  "termRest e = \<lparr> te_type = pd_type e, te_spec = pd_spec e, te_shortname = pd_shortname e,
                  te_status = pd_status e, te_uri = pd_uri e, te_normative = pd_normative e,
                  te_for = pd_for e \<rparr>"

definition specRest :: "ParsedDataEntry \<Rightarrow> SpecEntry" where
  "specRest e = \<lparr> se_term = pd_term e, se_type = pd_type e, se_spec = pd_spec e,
                  se_status = pd_status e, se_uri = pd_uri e, se_normative = pd_normative e,
                  se_for = pd_for e \<rparr>"

text \<open>
  The indexes are objects without prototype used as dictionaries from a string to an
  array; the order of their keys is not modelled.
\<close>

type_synonym DataByTerm = "string \<rightharpoonup> TermEntry list"
type_synonym DataBySpec = "string \<rightharpoonup> SpecEntry list"

text \<open>\<^verbatim>\<open>if (!data[k]) data[k] = []; data[k].push(v);\<close>\<close>

definition pushAt :: "('k \<rightharpoonup> 'v list) \<Rightarrow> 'k \<Rightarrow> 'v \<Rightarrow> ('k \<rightharpoonup> 'v list)" where
  "pushAt data k v =
     (let data' = (if data k = None then data(k \<mapsto> []) else data)
      in data'(k \<mapsto> (case data' k of None \<Rightarrow> [] | Some xs \<Rightarrow> xs) @ [v]))"

text \<open>
  \<^verbatim>\<open>
  function updateDataByTerm(terms: ParsedDataEntry[], data: DataByTerm) {
    for (const { term, isExported, ...termData } of terms) {
      if (!data[term]) data[term] = [];
      data[term].push(termData);
      if (termData.type === 'method' && /\(.+\)/.test(term)) {
        // add another entry without the arguments
        const methodWithoutArgs = term.replace(/\(.+\)/, '()');
        if (!data[methodWithoutArgs]) data[methodWithoutArgs] = [];
        data[methodWithoutArgs].push(termData);
      }
    }
  }
  \<close>
\<close>

fun updateDataByTerm :: "ParsedDataEntry list \<Rightarrow> DataByTerm \<Rightarrow> DataByTerm" where
  "updateDataByTerm [] data = data"
| "updateDataByTerm (e # terms) data =
     (let termData = termRest e;
          data1 = pushAt data (pd_term e) termData;
          data2 = (if te_type termData = ''method'' \<and> testArgs (pd_term e)
                   then pushAt data1 (replaceArgs (pd_term e)) termData
                   else data1)
      in updateDataByTerm terms data2)"

text \<open>
  \<^verbatim>\<open>
  function updateDataBySpec(terms: ParsedDataEntry[], data: DataBySpec) {
    for (const { shortname, isExported, ...termData } of terms) {
      if (!data[shortname]) data[shortname] = [];
      data[shortname].push(termData);
    }
  }
  \<close>
\<close>

fun updateDataBySpec :: "ParsedDataEntry list \<Rightarrow> DataBySpec \<Rightarrow> DataBySpec" where
  "updateDataBySpec [] data = data"
| "updateDataBySpec (e # terms) data =
     updateDataBySpec terms (pushAt data (pd_shortname e) (specRest e))"

section \<open>Pipeline driver\<close>

text \<open>
  The loop of \<^verbatim>\<open>main\<close> over \<^verbatim>\<open>dfnSources\<close>, on the state
  \<open>(dataByTerm, dataBySpec, errorURIs)\<close>. The \<^verbatim>\<open>catch\<close> clause logs and rethrows; on
  inputs of the declared types none of the three calls throws.
\<close>

fun processSources ::
  "string set \<Rightarrow> string set \<Rightarrow> DfnSource list
     \<Rightarrow> DataByTerm \<times> DataBySpec \<times> string list \<Rightarrow> DataByTerm \<times> DataBySpec \<times> string list" where
  "processSources SUPPORTED_TYPES CSS_TYPES_INPUT [] st = st"
| "processSources SUPPORTED_TYPES CSS_TYPES_INPUT (source # rest) (dataByTerm, dataBySpec, errorURIs) =
     (case parseData SUPPORTED_TYPES CSS_TYPES_INPUT source errorURIs of
        (terms, errorURIs') \<Rightarrow>
          processSources SUPPORTED_TYPES CSS_TYPES_INPUT rest
            (updateDataByTerm terms dataByTerm, updateDataBySpec terms dataBySpec, errorURIs'))"

text \<open>
  How a run of \<^verbatim>\<open>main\<close> ends: the promise is rejected; it resolves to \<^verbatim>\<open>false\<close> with
  nothing written; \<^verbatim>\<open>process.exit(1)\<close> after logging the collected URIs, nothing written;
  or the three files are written (term index, spec index, spec map) and it resolves to
  \<^verbatim>\<open>true\<close>.
\<close>

datatype 'm RunResult =
    Rejected string
  | NothingToUpdate
  | Exit1 "string list"
  | Written DataByTerm DataBySpec 'm

text \<open>
  \<^verbatim>\<open>main\<close>. The collaborators \<^verbatim>\<open>updateInputSource\<close> and \<^verbatim>\<open>getSpecsData\<close> do the
  input and are given by what they resolve to (\<open>Inr\<close>) or reject with (\<open>Inl\<close>); the
  type of the spec map, \<^verbatim>\<open>Store['specmap']\<close>, is a parameter.
\<close>

definition main ::
  "string set \<Rightarrow> string set \<Rightarrow> bool \<Rightarrow> string + bool \<Rightarrow> string + ('m \<times> DfnSource list)
     \<Rightarrow> 'm RunResult" where
  "main SUPPORTED_TYPES CSS_TYPES_INPUT forceUpdate updateInputSource getSpecsData =
     (case updateInputSource of
        Inl err \<Rightarrow> Rejected err
      | Inr hasUpdated \<Rightarrow>
          if \<not> hasUpdated \<and> \<not> forceUpdate then NothingToUpdate
          else (case getSpecsData of
                  Inl err \<Rightarrow> Rejected err
                | Inr (specMap, dfnSources) \<Rightarrow>
                    (case processSources SUPPORTED_TYPES CSS_TYPES_INPUT dfnSources
                            (Map.empty, Map.empty, []) of
                       (dataByTerm, dataBySpec, errorURIs) \<Rightarrow>
                         if length errorURIs > 0 then Exit1 errorURIs
                         else Written dataByTerm dataBySpec specMap)))"

text \<open>Whether a run ended with the three files written.\<close>

definition artifactsWritten :: "'m RunResult \<Rightarrow> bool" where
  "artifactsWritten r = (case r of Written dataByTerm dataBySpec specMap \<Rightarrow> True | _ \<Rightarrow> False)"

text \<open>The array stored under a key of an index, empty when the key is absent.\<close>

definition entries :: "('k \<rightharpoonup> 'v list) \<Rightarrow> 'k \<Rightarrow> 'v list" where
  "entries data k = (case data k of None \<Rightarrow> [] | Some xs \<Rightarrow> xs)"

section \<open>Example inputs\<close>

text \<open>
  Values for the two constants of \<^verbatim>\<open>./constants\<close>, made of kinds the specification
  lists; they are used where a closed example is evaluated.
\<close>

definition exampleSupported :: "string set" where
  "exampleSupported =
     {''dfn'', ''interface'', ''method'', ''attribute'', ''enum-value'', ''css-property''}"

definition exampleCss :: "string set" where
  "exampleCss = {''property'', ''descriptor'', ''type'', ''value'', ''function'', ''at-rule'',
                 ''selector''}"

text \<open>The definition and the source of the specification's end-to-end example.\<close>

definition eventDfn :: WebrefDfn where
  "eventDfn = \<lparr> dfn_id = ''event'', dfn_href = ''https://dom.spec.whatwg.org/#event'',
                 dfn_linkingText = [''Event''], dfn_localLinkingText = [],
                 dfn_type = ''interface'', dfn_for = [], dfn_access = ''public'',
                 dfn_informative = False, dfn_definedIn = ''heading'' \<rparr>"

definition domSource :: "WebrefDfn list \<Rightarrow> DfnSource" where
  "domSource dfns = \<lparr> src_series = ''dom'', src_spec = ''dom'',
                        src_url = ''https://dom.spec.whatwg.org/'', src_dfns = dfns \<rparr>"

text \<open>A definition whose \<^verbatim>\<open>href\<close> lies outside the URL of the DOM specification.\<close>

definition strayDfn :: WebrefDfn where
  "strayDfn = eventDfn \<lparr> dfn_href := ''https://example.org/#event'' \<rparr>"

text \<open>A definition whose \<^verbatim>\<open>href\<close> holds the URL of the DOM specification, not in front.\<close>

definition nestedDfn :: WebrefDfn where
  "nestedDfn = eventDfn \<lparr> dfn_href := ''//https://dom.spec.whatwg.org/#event'' \<rparr>"

text \<open>A definition that is not exported, and one of a kind that is not supported.\<close>

definition privateDfn :: WebrefDfn where
  "privateDfn = eventDfn \<lparr> dfn_linkingText := [''Hidden''], dfn_access := ''private'' \<rparr>"

definition abstractOpDfn :: WebrefDfn where
  "abstractOpDfn = eventDfn \<lparr> dfn_linkingText := [''Run''], dfn_type := ''abstract-op'' \<rparr>"

text \<open>
  A record of a versioned specification, as the entries of the fixture under the key
  \<^verbatim>\<open>inherited value\<close>: \<^verbatim>\<open>spec: 'css-cascade-3', shortname: 'css-cascade'\<close>.
\<close>

definition cascadeEntry :: ParsedDataEntry where
  "cascadeEntry = \<lparr> pd_term = ''inherited value'', pd_isExported = True, pd_type = ''dfn'',
                     pd_spec = ''css-cascade-3'', pd_shortname = ''css-cascade'',
                     pd_status = ''current'', pd_uri = ''#inherited-value'',
                     pd_normative = True, pd_for = None \<rparr>"

text \<open>A method record with an argument list, and an attribute record.\<close>

definition fooEntry :: ParsedDataEntry where
  "fooEntry = \<lparr> pd_term = ''foo(a, b)'', pd_isExported = True, pd_type = ''method'',
                 pd_spec = ''dom'', pd_shortname = ''dom'', pd_status = ''current'',
                 pd_uri = ''#dom-node-foo'', pd_normative = True, pd_for = Some [''Node''] \<rparr>"

definition lengthEntry :: ParsedDataEntry where
  "lengthEntry = \<lparr> pd_term = ''length'', pd_isExported = True, pd_type = ''attribute'',
                    pd_spec = ''dom'', pd_shortname = ''dom'', pd_status = ''current'',
                    pd_uri = ''#dom-nodelist-length'', pd_normative = True,
                    pd_for = Some [''NodeList''] \<rparr>"

section \<open>Facts about the string primitives\<close>

lemma endsWith_single: "endsWith s [c] = (s \<noteq> [] \<and> last s = c)"
proof (cases s rule: rev_cases)
  case Nil
  then show ?thesis by (simp add: endsWith_def)
next
  case (snoc ys y)
  then show ?thesis by (simp add: endsWith_def)
qed

lemma replaceQuoteAnchors_inner:
  "replaceQuoteAnchors False s = stripTrailingQuote s"
proof (induction s)
  case Nil
  show ?case by (simp add: stripTrailingQuote_def)
next
  case (Cons c cs)
  then show ?case by (cases cs) (auto simp: stripTrailingQuote_def)
qed

lemma replaceQuoteAnchors_spec:
  "replaceQuoteAnchors True s = spec_unquote s"
proof (cases s)
  case Nil
  then show ?thesis by (simp add: spec_unquote_def stripLeadingQuote_def stripTrailingQuote_def)
next
  case (Cons c cs)
  show ?thesis
  proof (cases "c = dquote")
    case True
    with Cons show ?thesis
      by (simp add: spec_unquote_def stripLeadingQuote_def replaceQuoteAnchors_inner)
  next
    case False
    with Cons show ?thesis
      by (cases cs)
         (auto simp: spec_unquote_def stripLeadingQuote_def replaceQuoteAnchors_inner
                     stripTrailingQuote_def)
  qed
qed

lemma stripLeadingQuote_length:
  "length (stripLeadingQuote s) = (if prefix [dquote] s then length s - 1 else length s)"
  by (cases s) (auto simp: stripLeadingQuote_def)

lemma stripTrailingQuote_length:
  "length (stripTrailingQuote s) = (if suffix [dquote] s then length s - 1 else length s)"
  by (cases s rule: rev_cases) (auto simp: stripTrailingQuote_def suffix_def)

lemma stripLeadingQuote_id: "\<not> prefix [dquote] s \<Longrightarrow> stripLeadingQuote s = s"
  by (cases s) (auto simp: stripLeadingQuote_def)

lemma stripTrailingQuote_id: "\<not> suffix [dquote] s \<Longrightarrow> stripTrailingQuote s = s"
  by (cases s rule: rev_cases) (auto simp: stripTrailingQuote_def suffix_def)

text \<open>Unquoting changes every string that begins or ends with a double quote.\<close>

lemma spec_unquote_fixed:
  "spec_unquote s = s \<longleftrightarrow> \<not> prefix [dquote] s \<and> \<not> suffix [dquote] s"
proof
  assume eq: "spec_unquote s = s"
  have "length (spec_unquote s) = length s" using eq by simp
  moreover have "length (spec_unquote s) \<le> length (stripLeadingQuote s)"
    by (simp add: spec_unquote_def stripTrailingQuote_length)
  ultimately have a: "\<not> prefix [dquote] s"
    by (cases s) (auto simp: stripLeadingQuote_length split: if_splits)
  then have "stripTrailingQuote s = s"
    using eq by (simp add: spec_unquote_def stripLeadingQuote_id)
  then have "\<not> suffix [dquote] s"
    using stripTrailingQuote_length [of s]
    by (cases s rule: rev_cases) (auto split: if_splits)
  with a show "\<not> prefix [dquote] s \<and> \<not> suffix [dquote] s" by simp
next
  assume "\<not> prefix [dquote] s \<and> \<not> suffix [dquote] s"
  then show "spec_unquote s = s"
    by (simp add: spec_unquote_def stripLeadingQuote_id stripTrailingQuote_id)
qed

lemma spec_unquote_empty:
  "spec_unquote s = [] \<longleftrightarrow> s = [] \<or> s = [dquote] \<or> s = [dquote, dquote]"
proof (cases s)
  case Nil
  then show ?thesis by (simp add: spec_unquote_def stripLeadingQuote_def stripTrailingQuote_def)
next
  case (Cons c cs)
  then show ?thesis
    by (cases cs rule: rev_cases)
       (auto simp: spec_unquote_def stripLeadingQuote_def stripTrailingQuote_def)
qed

section \<open>Facts about the indexes and the argument-list expression\<close>

lemma pushAt_eq: "pushAt data k v = data(k \<mapsto> entries data k @ [v])"
  by (auto simp: pushAt_def entries_def Let_def split: option.splits)

lemma entries_upd: "entries (data(k \<mapsto> xs)) k' = (if k' = k then xs else entries data k')"
  by (simp add: entries_def)

lemma entries_pushAt:
  "entries (pushAt data k v) k' = (if k' = k then entries data k @ [v] else entries data k')"
  by (simp add: pushAt_eq entries_upd)

lemma dom_pushAt: "dom (pushAt data k v) = insert k (dom data)"
  by (simp add: pushAt_eq)

lemma entries_in_dom: "x \<in> set (entries data k) \<Longrightarrow> k \<in> dom data"
  by (cases "data k") (auto simp: entries_def)

lemma lastClose_bound: "lastClose s = Some j \<Longrightarrow> j < length s \<and> s ! j = CHR '')''"
  by (induction s arbitrary: j) (auto split: option.splits if_splits)

lemma lastClose_None: "lastClose s = None \<longleftrightarrow> CHR '')'' \<notin> set s"
  by (induction s) (auto split: option.splits)

lemma matchArgsHere_bound: "matchArgsHere s = Some n \<Longrightarrow> 3 \<le> n \<and> n \<le> length s"
proof -
  assume a: "matchArgsHere s = Some n"
  then obtain rest where s: "s = CHR ''('' # rest"
    by (cases s) (auto simp: matchArgsHere_def split: if_splits)
  from a s obtain d run where tw: "takeWhile (\<lambda>x. \<not> lineTerminator x) rest = d # run"
    by (cases "takeWhile (\<lambda>x. \<not> lineTerminator x) rest") (auto simp: matchArgsHere_def)
  from a s tw obtain j where j: "lastClose run = Some j" "n = j + 3"
    by (cases "lastClose run") (auto simp: matchArgsHere_def)
  have "length (d # run) \<le> length rest"
    using length_takeWhile_le [of "\<lambda>x. \<not> lineTerminator x" rest] tw by simp
  moreover have "j < length run" using lastClose_bound [OF j(1)] by simp
  ultimately show ?thesis using s j by simp
qed

lemma replaceArgs_shorter: "testArgs s \<Longrightarrow> length (replaceArgs s) < length s"
proof (induction s)
  case Nil
  then show ?case by simp
next
  case (Cons c cs)
  show ?case
  proof (cases "matchArgsHere (c # cs)")
    case None
    with Cons show ?thesis by simp
  next
    case (Some n)
    from matchArgsHere_bound [OF Some] have "3 \<le> n" "n \<le> length (c # cs)" by simp_all
    with Some show ?thesis by simp
  qed
qed

lemma replaceArgs_neq: "testArgs s \<Longrightarrow> replaceArgs s \<noteq> s"
  using replaceArgs_shorter [of s] by auto

lemma updateDataByTerm_single:
  "updateDataByTerm [e] data =
     (if pd_type e = ''method'' \<and> testArgs (pd_term e)
      then (data(pd_term e \<mapsto> entries data (pd_term e) @ [termRest e]))
               (replaceArgs (pd_term e) \<mapsto> entries data (replaceArgs (pd_term e)) @ [termRest e])
      else data(pd_term e \<mapsto> entries data (pd_term e) @ [termRest e]))"
  using replaceArgs_neq [of "pd_term e"]
  by (simp add: Let_def pushAt_eq entries_upd termRest_def)

lemma updateDataByTerm_entries:
  "entries (updateDataByTerm terms data) k =
     entries data k @
       map termRest
         (filter (\<lambda>e. k = pd_term e \<or>
                       (pd_type e = ''method'' \<and> testArgs (pd_term e) \<and> k = replaceArgs (pd_term e)))
                 terms)"
proof (induction terms arbitrary: data)
  case Nil
  show ?case by simp
next
  case (Cons e terms)
  show ?case
    using replaceArgs_neq [of "pd_term e"]
    by (auto simp: Cons.IH Let_def entries_pushAt termRest_def)
qed

lemma updateDataBySpec_entries:
  "entries (updateDataBySpec terms data) k =
     entries data k @ map specRest (filter (\<lambda>e. pd_shortname e = k) terms)"
  by (induction terms arbitrary: data) (auto simp: entries_pushAt)

lemma updateDataBySpec_dom:
  "dom (updateDataBySpec terms data) = dom data \<union> pd_shortname ` set terms"
  by (induction terms arbitrary: data) (auto simp: dom_pushAt)

lemma updateDataByTerm_dom:
  "dom (updateDataByTerm terms data) =
     dom data \<union> pd_term ` set terms
       \<union> {replaceArgs (pd_term e) | e. e \<in> set terms \<and> pd_type e = ''method'' \<and> testArgs (pd_term e)}"
  by (induction terms arbitrary: data) (auto simp: dom_pushAt Let_def termRest_def)

lemma lookup_entries: "data k = Some xs \<Longrightarrow> entries data k = xs"
  by (simp add: entries_def)

text \<open>
  The argument-list expression in words: a match at the head of a string is an opening
  parenthesis, a non-empty stretch without line terminator, and a closing parenthesis.
\<close>

lemma matchArgsHere_shape:
  assumes "matchArgsHere s = Some n"
  shows "\<exists>mid post. s = ''('' @ mid @ '')'' @ post \<and> mid \<noteq> []
           \<and> (\<forall>c\<in>set mid. \<not> lineTerminator c) \<and> n = length mid + 2"
proof -
  let ?P = "\<lambda>x. \<not> lineTerminator x"
  from assms obtain rest where s: "s = CHR ''('' # rest"
    by (cases s) (auto simp: matchArgsHere_def split: if_splits)
  from assms s obtain d run where tw: "takeWhile ?P rest = d # run"
    by (cases "takeWhile ?P rest") (auto simp: matchArgsHere_def)
  from assms s tw obtain j where j: "lastClose run = Some j" and n: "n = j + 3"
    by (cases "lastClose run") (auto simp: matchArgsHere_def)
  from lastClose_bound [OF j] have jl: "j < length run" and jc: "run ! j = CHR '')''"
    by simp_all
  have run: "run = take j run @ '')'' @ drop (Suc j) run"
    using id_take_nth_drop [OF jl] jc by simp
  have rest: "rest = (d # run) @ dropWhile ?P rest"
    using takeWhile_dropWhile_id [of ?P rest] tw by simp
  have all: "\<forall>c\<in>set (d # run). \<not> lineTerminator c"
    using set_takeWhileD [of _ ?P rest] tw by auto
  have "s = ''('' @ (d # take j run) @ '')'' @ (drop (Suc j) run @ dropWhile ?P rest)"
    using s rest run by (metis append_Cons append_Nil append_assoc)
  moreover have "\<forall>c\<in>set (d # take j run). \<not> lineTerminator c"
    using all by (auto dest: in_set_takeD)
  moreover have "n = length (d # take j run) + 2"
    using n jl by simp
  ultimately show ?thesis by blast
qed

lemma matchArgsHere_complete:
  assumes "mid \<noteq> []" and "\<forall>c\<in>set mid. \<not> lineTerminator c"
  shows "matchArgsHere (''('' @ mid @ '')'' @ post) \<noteq> None"
proof -
  let ?P = "\<lambda>x. \<not> lineTerminator x"
  from assms(1) obtain d m where mid: "mid = d # m" by (cases mid) auto
  have close: "?P (CHR '')'')" by (simp add: lineTerminator_def)
  have "takeWhile ?P (mid @ '')'' @ post) = mid @ takeWhile ?P ('')'' @ post)"
    using assms(2) by (simp add: takeWhile_append2)
  then have tw: "takeWhile ?P (mid @ '')'' @ post) = d # (m @ CHR '')'' # takeWhile ?P post)"
    using close mid by simp
  have "lastClose (m @ CHR '')'' # takeWhile ?P post) \<noteq> None"
    by (simp add: lastClose_None)
  then show ?thesis
    using tw by (auto simp: matchArgsHere_def)
qed

text \<open>
  The test succeeds exactly on the strings that hold, somewhere, a parenthesized
  non-empty stretch free of line terminators.
\<close>

lemma testArgs_iff:
  "testArgs t \<longleftrightarrow>
     (\<exists>pre mid post. t = pre @ ''('' @ mid @ '')'' @ post \<and> mid \<noteq> []
        \<and> (\<forall>c\<in>set mid. \<not> lineTerminator c))"
proof
  show "\<exists>pre mid post. t = pre @ ''('' @ mid @ '')'' @ post \<and> mid \<noteq> []
        \<and> (\<forall>c\<in>set mid. \<not> lineTerminator c)" if "testArgs t"
    using that
  proof (induction t)
    case Nil
    then show ?case by simp
  next
    case (Cons c cs)
    show ?case
    proof (cases "matchArgsHere (c # cs)")
      case (Some n)
      from matchArgsHere_shape [OF Some] obtain mid post where
        "c # cs = ''('' @ mid @ '')'' @ post" "mid \<noteq> []" "\<forall>c\<in>set mid. \<not> lineTerminator c"
        by blast
      then show ?thesis by (metis append_Nil)
    next
      case None
      with Cons.prems have "testArgs cs" by simp
      from Cons.IH [OF this] obtain pre mid post where
        "cs = pre @ ''('' @ mid @ '')'' @ post" "mid \<noteq> []" "\<forall>c\<in>set mid. \<not> lineTerminator c"
        by blast
      then show ?thesis by (metis append_Cons)
    qed
  qed
next
  assume "\<exists>pre mid post. t = pre @ ''('' @ mid @ '')'' @ post \<and> mid \<noteq> []
        \<and> (\<forall>c\<in>set mid. \<not> lineTerminator c)"
  then obtain pre mid post where t: "t = pre @ ''('' @ mid @ '')'' @ post"
    and m: "mid \<noteq> []" "\<forall>c\<in>set mid. \<not> lineTerminator c" by blast
  have "testArgs (pre @ ''('' @ mid @ '')'' @ post)"
  proof (induction pre)
    case Nil
    have "testArgs (CHR ''('' # mid @ '')'' @ post)"
      using matchArgsHere_complete [OF m, of post] by simp
    then show ?case by simp
  next
    case (Cons c pre)
    then show ?case by simp
  qed
  with t show "testArgs t" by simp
qed

text \<open>
  Where the test succeeds, the replacement puts \<^verbatim>\<open>()\<close> in the place of one such
  parenthesized stretch.
\<close>

lemma replaceArgs_shape:
  "testArgs t \<Longrightarrow>
     \<exists>pre mid post. t = pre @ ''('' @ mid @ '')'' @ post \<and> mid \<noteq> []
        \<and> (\<forall>c\<in>set mid. \<not> lineTerminator c) \<and> replaceArgs t = pre @ ''()'' @ post"
proof (induction t)
  case Nil
  then show ?case by simp
next
  case (Cons c cs)
  show ?case
  proof (cases "matchArgsHere (c # cs)")
    case (Some n)
    from matchArgsHere_shape [OF Some] obtain mid post where
      s: "c # cs = ''('' @ mid @ '')'' @ post" and m: "mid \<noteq> []" "\<forall>c\<in>set mid. \<not> lineTerminator c"
      and n: "n = length mid + 2"
      by blast
    have "drop n (c # cs) = post" unfolding s n by simp
    then have "replaceArgs (c # cs) = [] @ ''()'' @ post" using Some by simp
    with s m show ?thesis by (metis append_Nil)
  next
    case None
    with Cons.prems have "testArgs cs" by simp
    from Cons.IH [OF this] obtain pre mid post where
      s: "cs = pre @ ''('' @ mid @ '')'' @ post" and m: "mid \<noteq> []" "\<forall>c\<in>set mid. \<not> lineTerminator c"
      and r: "replaceArgs cs = pre @ ''()'' @ post"
      by blast
    have "replaceArgs (c # cs) = (c # pre) @ ''()'' @ post" using None r by simp
    moreover have "c # cs = (c # pre) @ ''('' @ mid @ '')'' @ post" using s by simp
    ultimately show ?thesis using m by blast
  qed
qed

text \<open>
  The match is greedy and the replaced match is the leftmost one: no closing parenthesis
  later in the stretch, and no match that begins earlier.
\<close>

lemma lastClose_last:
  "lastClose s = Some j \<Longrightarrow> i < length s \<Longrightarrow> s ! i = CHR '')'' \<Longrightarrow> i \<le> j"
proof (induction s arbitrary: i j)
  case Nil
  then show ?case by simp
next
  case (Cons c cs)
  show ?case
  proof (cases i)
    case 0
    then show ?thesis by simp
  next
    case (Suc i')
    with Cons.prems have i': "i' < length cs" "cs ! i' = CHR '')''" by simp_all
    then have "CHR '')'' \<in> set cs" by (metis nth_mem)
    then obtain j' where j': "lastClose cs = Some j'"
      using lastClose_None [of cs] by (cases "lastClose cs") auto
    with Cons.prems have "j = Suc j'" by simp
    moreover from Cons.IH [OF j' i'] have "i' \<le> j'" .
    ultimately show ?thesis using Suc by simp
  qed
qed

lemma matchArgsHere_greedy:
  assumes "matchArgsHere s = Some n"
    and "s = ''('' @ mid' @ '')'' @ post'"
    and "\<forall>c\<in>set mid'. \<not> lineTerminator c"
  shows "length mid' + 2 \<le> n"
proof (cases mid')
  case Nil
  with matchArgsHere_bound [OF assms(1)] show ?thesis by simp
next
  case (Cons d' m')
  let ?P = "\<lambda>x. \<not> lineTerminator x"
  have close: "?P (CHR '')'')" by (simp add: lineTerminator_def)
  have "takeWhile ?P (mid' @ '')'' @ post') = mid' @ takeWhile ?P ('')'' @ post')"
    using assms(3) by (simp add: takeWhile_append2)
  then have tw: "takeWhile ?P (mid' @ '')'' @ post') = d' # (m' @ CHR '')'' # takeWhile ?P post')"
    using close Cons by simp
  let ?run = "m' @ CHR '')'' # takeWhile ?P post'"
  have "lastClose ?run \<noteq> None" by (simp add: lastClose_None)
  then obtain j where j: "lastClose ?run = Some j" by auto
  have n: "n = j + 3"
    using assms(1) tw j unfolding assms(2) by (simp add: matchArgsHere_def)
  have "length m' \<le> j"
    by (rule lastClose_last [OF j]) (simp_all add: nth_append)
  with n Cons show ?thesis by simp
qed

lemma leftmostGreedyArgs_here:
  assumes "matchArgsHere s = Some n"
  shows "\<exists>mid post. leftmostGreedyArgs s [] mid post \<and> n = length mid + 2"
proof -
  from matchArgsHere_shape [OF assms] obtain mid post where
    s: "s = ''('' @ mid @ '')'' @ post" and m1: "mid \<noteq> []"
    and m2: "\<forall>c\<in>set mid. \<not> lineTerminator c" and n: "n = length mid + 2"
    by blast
  have a: "s = [] @ ''('' @ mid @ '')'' @ post"
    using s by simp
  have d: "\<forall>pre' mid' post'. s = pre' @ ''('' @ mid' @ '')'' @ post' \<and> mid' \<noteq> []
            \<and> (\<forall>c\<in>set mid'. \<not> lineTerminator c) \<longrightarrow> length ([]::string) \<le> length pre'"
    by simp
  have e: "\<forall>mid' post'. s = [] @ ''('' @ mid' @ '')'' @ post'
            \<and> (\<forall>c\<in>set mid'. \<not> lineTerminator c) \<longrightarrow> length mid' \<le> length mid"
  proof (intro allI impI)
    fix mid' post'
    assume h: "s = [] @ ''('' @ mid' @ '')'' @ post' \<and> (\<forall>c\<in>set mid'. \<not> lineTerminator c)"
    from h [THEN conjunct1] have s': "s = ''('' @ mid' @ '')'' @ post'" by simp
    from matchArgsHere_greedy [OF assms s' h [THEN conjunct2]] n
    show "length mid' \<le> length mid" by simp
  qed
  have "leftmostGreedyArgs s [] mid post"
    unfolding leftmostGreedyArgs_def by (intro conjI a m1 m2 d e)
  with n show ?thesis by (intro exI conjI)
qed

lemma leftmostGreedyArgs_Cons:
  assumes none: "matchArgsHere (c # cs) = None"
    and lg: "leftmostGreedyArgs cs pre mid post"
  shows "leftmostGreedyArgs (c # cs) (c # pre) mid post"
proof -
  note u = lg [unfolded leftmostGreedyArgs_def]
  note s = u [THEN conjunct1]
  note m1 = u [THEN conjunct2, THEN conjunct1]
  note m2 = u [THEN conjunct2, THEN conjunct2, THEN conjunct1]
  note left = u [THEN conjunct2, THEN conjunct2, THEN conjunct2, THEN conjunct1]
  note greedy = u [THEN conjunct2, THEN conjunct2, THEN conjunct2, THEN conjunct2]
  have a: "c # cs = (c # pre) @ ''('' @ mid @ '')'' @ post"
    using s by simp
  have d: "\<forall>pre' mid' post'. c # cs = pre' @ ''('' @ mid' @ '')'' @ post' \<and> mid' \<noteq> []
            \<and> (\<forall>c\<in>set mid'. \<not> lineTerminator c) \<longrightarrow> length (c # pre) \<le> length pre'"
  proof (intro allI impI)
    fix pre' mid' post'
    assume h: "c # cs = pre' @ ''('' @ mid' @ '')'' @ post' \<and> mid' \<noteq> []
            \<and> (\<forall>c\<in>set mid'. \<not> lineTerminator c)"
    note eq = h [THEN conjunct1]
    note n1 = h [THEN conjunct2, THEN conjunct1]
    note n2 = h [THEN conjunct2, THEN conjunct2]
    show "length (c # pre) \<le> length pre'"
    proof (cases pre')
      case Nil
      with eq have "c # cs = ''('' @ mid' @ '')'' @ post'" by simp
      with matchArgsHere_complete [OF n1 n2, of post'] none show ?thesis by simp
    next
      case (Cons c' pre'')
      with eq have eq': "cs = pre'' @ ''('' @ mid' @ '')'' @ post'" by simp
      have "length pre \<le> length pre''"
        by (rule left [rule_format, of pre'' mid' post']) (intro conjI eq' n1 n2)
      with Cons show ?thesis by simp
    qed
  qed
  have e: "\<forall>mid' post'. c # cs = (c # pre) @ ''('' @ mid' @ '')'' @ post'
            \<and> (\<forall>c\<in>set mid'. \<not> lineTerminator c) \<longrightarrow> length mid' \<le> length mid"
  proof (intro allI impI)
    fix mid' post'
    assume h: "c # cs = (c # pre) @ ''('' @ mid' @ '')'' @ post'
            \<and> (\<forall>c\<in>set mid'. \<not> lineTerminator c)"
    from h [THEN conjunct1] have eq': "cs = pre @ ''('' @ mid' @ '')'' @ post'" by simp
    show "length mid' \<le> length mid"
      by (rule greedy [rule_format, of mid' post']) (intro conjI eq' h [THEN conjunct2])
  qed
  show ?thesis
    unfolding leftmostGreedyArgs_def by (intro conjI a m1 m2 d e)
qed

lemma replaceArgs_exact:
  "testArgs t \<Longrightarrow>
     \<exists>pre mid post. leftmostGreedyArgs t pre mid post \<and> replaceArgs t = pre @ ''()'' @ post"
proof (induction t)
  case Nil
  then show ?case by simp
next
  case (Cons c cs)
  show ?case
  proof (cases "matchArgsHere (c # cs)")
    case (Some n)
    from leftmostGreedyArgs_here [OF Some] obtain mid post where
      lg: "leftmostGreedyArgs (c # cs) [] mid post" and n: "n = length mid + 2"
      by blast
    note s = lg [unfolded leftmostGreedyArgs_def, THEN conjunct1]
    have "drop n (c # cs) = post"
      unfolding n by (subst s) simp
    then have "replaceArgs (c # cs) = [] @ ''()'' @ post"
      using Some by simp
    with lg show ?thesis by (intro exI conjI)
  next
    case None
    with Cons.prems have "testArgs cs" by simp
    from Cons.IH [OF this] obtain pre mid post where
      lg: "leftmostGreedyArgs cs pre mid post" and r: "replaceArgs cs = pre @ ''()'' @ post"
      by blast
    have "replaceArgs (c # cs) = (c # pre) @ ''()'' @ post"
      using None r by simp
    with leftmostGreedyArgs_Cons [OF None lg] show ?thesis by (intro exI conjI)
  qed
qed

section \<open>Facts about the parser and the driver\<close>

lemma uniq_set: "set (uniq xs) = set xs"
  by (induction xs rule: uniq.induct) auto

lemma uniq_distinct: "distinct (uniq xs)"
  by (induction xs rule: uniq.induct) (auto simp: uniq_set)

lemma uniq_snoc: "uniq (xs @ [x]) = (if x \<in> set xs then uniq xs else uniq xs @ [x])"
  by (induction xs rule: uniq.induct) auto

lemma uniq_first_occurrences:
  "uniq xs = map (\<lambda>i. xs ! i) (filter (\<lambda>i. xs ! i \<notin> set (take i xs)) [0..<length xs])"
proof (induction xs rule: rev_induct)
  case Nil
  show ?case by simp
next
  case (snoc x xs)
  have "filter (\<lambda>i. (xs @ [x]) ! i \<notin> set (take i (xs @ [x]))) [0..<length xs]
          = filter (\<lambda>i. xs ! i \<notin> set (take i xs)) [0..<length xs]"
    by (rule filter_cong) (auto simp: nth_append)
  moreover have "map (\<lambda>i. (xs @ [x]) ! i) (filter (\<lambda>i. xs ! i \<notin> set (take i xs)) [0..<length xs])
          = map (\<lambda>i. xs ! i) (filter (\<lambda>i. xs ! i \<notin> set (take i xs)) [0..<length xs])"
    by (rule map_cong) (auto simp: nth_append)
  ultimately show ?case
    by (simp add: uniq_snoc snoc.IH)
qed

lemma mapAll_set:
  "e \<in> set (mapAll C source) \<longleftrightarrow>
     (\<exists>dfn\<in>set (src_dfns source). \<exists>trm\<in>set (dfn_linkingText dfn).
        e = mapDefinition C dfn trm (src_spec source) (src_series source) (src_url source))"
  by (auto simp: mapAll_def)

lemma parseData_fst:
  "fst (parseData S C source errs) =
     uniq (filter (\<lambda>t. pd_isExported t \<and> pd_type t \<in> S) (mapAll C source))"
  by (simp add: parseData_def)

lemma parseData_snd: "snd (parseData S C source errs) = errs"
  by (simp add: parseData_def)

lemma parseData_set:
  "set (fst (parseData S C source errs)) =
     {e \<in> set (mapAll C source). pd_isExported e \<and> pd_type e \<in> S}"
  by (auto simp: parseData_fst uniq_set)

lemma updateDataByTerm_append:
  "updateDataByTerm (xs @ ys) data = updateDataByTerm ys (updateDataByTerm xs data)"
  by (induction xs arbitrary: data) (simp_all add: Let_def)

lemma updateDataBySpec_append:
  "updateDataBySpec (xs @ ys) data = updateDataBySpec ys (updateDataBySpec xs data)"
  by (induction xs arbitrary: data) simp_all

text \<open>The loop of the driver feeds both aggregators the parsed records of all sources.\<close>

lemma processSources_eq:
  "processSources S C sources (bt, bs, errs) =
     (updateDataByTerm (concat (map (\<lambda>s. fst (parseData S C s errs)) sources)) bt,
      updateDataBySpec (concat (map (\<lambda>s. fst (parseData S C s errs)) sources)) bs,
      errs)"
proof (induction sources arbitrary: bt bs)
  case Nil
  show ?case by simp
next
  case (Cons s sources)
  show ?case
    by (simp add: Cons.IH updateDataByTerm_append updateDataBySpec_append parseData_def)
qed

lemma main_runs:
  "main S C forceUpdate (Inr hasUpdated) (Inr (specMap, sources)) =
     (if \<not> hasUpdated \<and> \<not> forceUpdate then NothingToUpdate
      else Written
             (updateDataByTerm (concat (map (\<lambda>s. fst (parseData S C s [])) sources)) Map.empty)
             (updateDataBySpec (concat (map (\<lambda>s. fst (parseData S C s [])) sources)) Map.empty)
             specMap)"
  by (simp add: main_def processSources_eq)

lemma replaceFirst_prefix: "prefix pat s \<Longrightarrow> replaceFirst pat s = drop (length pat) s"
  by (cases s) auto

lemma replaceFirst_absent:
  "\<not> (\<exists>pre post. s = pre @ pat @ post) \<Longrightarrow> replaceFirst pat s = s"
proof (induction s)
  case Nil
  show ?case by simp
next
  case (Cons c cs)
  have "\<not> prefix pat (c # cs)"
    using Cons.prems by (auto simp: prefix_def) (metis append_Nil)
  moreover have "\<not> (\<exists>pre post. cs = pre @ pat @ post)"
    using Cons.prems by (metis append_Cons)
  ultimately show ?case using Cons.IH by simp
qed

section \<open>Claims about the term normalizer\<close>

text \<open>
  Claim C5. The normalizer meets its contract for every term: for the kind
  \<^verbatim>\<open>enum-value\<close> it strips one leading and one trailing double quote where present; for
  the kind \<^verbatim>\<open>method\<close> and a term that does not end with a closing parenthesis it appends
  \<^verbatim>\<open>()\<close>; in every other case the term comes back unchanged. The four examples of the
  specification hold.
\<close>

theorem normalizeTerm_contract:
  "normalizeTerm trm typ =
     (if typ = ''enum-value'' then spec_unquote trm
      else if typ = ''method'' \<and> \<not> (trm \<noteq> [] \<and> last trm = CHR '')'') then trm @ ''()''
      else trm)
   \<and> normalizeTerm (dquote # ''foo'' @ [dquote]) ''enum-value'' = ''foo''
   \<and> normalizeTerm ''foo'' ''enum-value'' = ''foo''
   \<and> normalizeTerm ''bar'' ''method'' = ''bar()''
   \<and> normalizeTerm ''bar()'' ''method'' = ''bar()''"
proof -
  have general: "normalizeTerm trm typ =
     (if typ = ''enum-value'' then spec_unquote trm
      else if typ = ''method'' \<and> \<not> (trm \<noteq> [] \<and> last trm = CHR '')'') then trm @ ''()''
      else trm)"
    by (simp add: normalizeTerm_def replaceQuoteAnchors_spec endsWith_single)
  have e1: "normalizeTerm (dquote # ''foo'' @ [dquote]) ''enum-value'' = ''foo''"
    by (simp add: normalizeTerm_def dquote_def)
  have e2: "normalizeTerm ''foo'' ''enum-value'' = ''foo''"
    by (simp add: normalizeTerm_def dquote_def)
  have e3: "normalizeTerm ''bar'' ''method'' = ''bar()''"
    by (simp add: normalizeTerm_def endsWith_def)
  have e4: "normalizeTerm ''bar()'' ''method'' = ''bar()''"
    by (simp add: normalizeTerm_def endsWith_def)
  from general e1 e2 e3 e4 show ?thesis by blast
qed

theorem normalizeTerm_contract_witness:
  "normalizeTerm ''item'' ''method'' = ''item()''
   \<and> normalizeTerm (dquote # ''auto'') ''enum-value'' = ''auto''
   \<and> normalizeTerm ''Event'' ''interface'' = ''Event''"
  using normalizeTerm_contract [of "''item''" "''method''"]
        normalizeTerm_contract [of "dquote # ''auto''" "''enum-value''"]
        normalizeTerm_contract [of "''Event''" "''interface''"]
  by (simp add: spec_unquote_def stripLeadingQuote_def stripTrailingQuote_def dquote_def)

text \<open>
  Claim C3, as stated: normalizing twice is the same as normalizing once, for every term
  and kind. It fails for an enum value wrapped in two pairs of quotes: the first pass
  strips the outer pair, the second pass the inner one.
\<close>

theorem normalizeTerm_not_idempotent:
  "normalizeTerm (normalizeTerm [dquote, dquote, CHR ''a'', dquote, dquote] ''enum-value'')
       ''enum-value''
     \<noteq> normalizeTerm [dquote, dquote, CHR ''a'', dquote, dquote] ''enum-value''"
  by (simp add: normalizeTerm_def)

text \<open>
  Claim C3, amended: normalizing twice is the same as normalizing once for every kind
  other than \<^verbatim>\<open>enum-value\<close>; for \<^verbatim>\<open>enum-value\<close> it is so exactly when the term normalized
  once neither begins nor ends with a double quote.
\<close>

theorem normalizeTerm_idempotent_iff:
  "normalizeTerm (normalizeTerm trm typ) typ = normalizeTerm trm typ
     \<longleftrightarrow> typ \<noteq> ''enum-value''
          \<or> (\<not> prefix [dquote] (normalizeTerm trm typ)
              \<and> \<not> suffix [dquote] (normalizeTerm trm typ))"
proof (cases "typ = ''enum-value''")
  case True
  then show ?thesis
    by (simp add: normalizeTerm_def replaceQuoteAnchors_spec spec_unquote_fixed)
next
  case False
  then show ?thesis
    by (simp add: normalizeTerm_def endsWith_single)
qed

theorem normalizeTerm_idempotent_iff_witness:
  "normalizeTerm (normalizeTerm (dquote # ''foo'' @ [dquote]) ''enum-value'') ''enum-value''
     = normalizeTerm (dquote # ''foo'' @ [dquote]) ''enum-value''
   \<and> normalizeTerm (normalizeTerm ''bar'' ''method'') ''method'' = normalizeTerm ''bar'' ''method''"
  using normalizeTerm_idempotent_iff [of "dquote # ''foo'' @ [dquote]" "''enum-value''"]
        normalizeTerm_idempotent_iff [of "''bar''" "''method''"]
  by (simp add: normalizeTerm_def dquote_def)

text \<open>
  Claim C4, as stated: normalization never turns a non-empty term into the empty string.
  It fails for the enum value that is the empty string literal, two double quotes.
\<close>

theorem normalizeTerm_collapses_quotes:
  "[dquote, dquote] \<noteq> [] \<and> normalizeTerm [dquote, dquote] ''enum-value'' = []"
  by (simp add: normalizeTerm_def)

text \<open>
  Claim C4, amended: the normalized term is the empty string exactly when the term is
  empty and the kind is not \<^verbatim>\<open>method\<close>, or the kind is \<^verbatim>\<open>enum-value\<close> and the term is
  one double quote or two double quotes. So for every kind other than \<^verbatim>\<open>enum-value\<close> a
  non-empty term stays non-empty.
\<close>

theorem normalizeTerm_empty_iff:
  "normalizeTerm trm typ = []
     \<longleftrightarrow> (trm = [] \<and> typ \<noteq> ''method'')
          \<or> (typ = ''enum-value'' \<and> (trm = [dquote] \<or> trm = [dquote, dquote]))"
  by (auto simp: normalizeTerm_def replaceQuoteAnchors_spec spec_unquote_empty endsWith_single)

theorem normalizeTerm_empty_iff_witness:
  "normalizeTerm ''x'' ''enum-value'' \<noteq> [] \<and> normalizeTerm [dquote] ''enum-value'' = []
   \<and> normalizeTerm ''x'' ''method'' \<noteq> []"
  using normalizeTerm_empty_iff [of "''x''" "''enum-value''"]
        normalizeTerm_empty_iff [of "[dquote]" "''enum-value''"]
        normalizeTerm_empty_iff [of "''x''" "''method''"]
  by (simp add: dquote_def)

lemma distinct_count_list: "distinct xs \<Longrightarrow> count_list xs x = (if x \<in> set xs then 1 else 0)"
  by (induction xs) auto

section \<open>Claims about the aggregators\<close>

text \<open>
  Claim C8. A record of kind \<^verbatim>\<open>method\<close> whose term holds a parenthesized argument list
  is pushed under two different keys of the term index, its term and the term with the
  argument list replaced by \<^verbatim>\<open>()\<close>, with the same entry; every other record is pushed
  under its term only. The entry holds the fields of the record but \<^verbatim>\<open>term\<close> and
  \<^verbatim>\<open>isExported\<close>. A term holds an argument list exactly when it has the form
  \<open>pre ( mid ) post\<close> with \<open>mid\<close> non-empty and free of line feed and carriage return;
  the second key is then \<open>pre () post\<close> for the decomposition with the shortest \<open>pre\<close>
  and, for it, the longest \<open>mid\<close>. So the entries found under a key after a batch are
  the earlier ones followed by one entry for every record of the batch that has this
  key, in order. The term \<^verbatim>\<open>foo(a, b)\<close> has the second key \<^verbatim>\<open>foo()\<close>, and \<^verbatim>\<open>foo()\<close> holds
  no argument list.
\<close>

theorem updateDataByTerm_fan_out:
  "updateDataByTerm [e] data =
     (if pd_type e = ''method'' \<and> testArgs (pd_term e)
      then (data(pd_term e \<mapsto> entries data (pd_term e) @ [termRest e]))
               (replaceArgs (pd_term e) \<mapsto> entries data (replaceArgs (pd_term e)) @ [termRest e])
      else data(pd_term e \<mapsto> entries data (pd_term e) @ [termRest e]))
   \<and> termRest e = \<lparr> te_type = pd_type e, te_spec = pd_spec e, te_shortname = pd_shortname e,
                      te_status = pd_status e, te_uri = pd_uri e,
                      te_normative = pd_normative e, te_for = pd_for e \<rparr>
   \<and> (testArgs t \<longleftrightarrow>
        (\<exists>pre mid post. t = pre @ ''('' @ mid @ '')'' @ post \<and> mid \<noteq> []
           \<and> (\<forall>c\<in>set mid. c \<noteq> CHR 0x0A \<and> c \<noteq> CHR 0x0D)))
   \<and> (testArgs t \<longrightarrow>
        replaceArgs t \<noteq> t
        \<and> (\<exists>pre mid post. t = pre @ ''('' @ mid @ '')'' @ post \<and> mid \<noteq> []
              \<and> (\<forall>c\<in>set mid. c \<noteq> CHR 0x0A \<and> c \<noteq> CHR 0x0D)
              \<and> (\<forall>pre' mid' post'. t = pre' @ ''('' @ mid' @ '')'' @ post' \<and> mid' \<noteq> []
                     \<and> (\<forall>c\<in>set mid'. c \<noteq> CHR 0x0A \<and> c \<noteq> CHR 0x0D)
                     \<longrightarrow> length pre \<le> length pre')
              \<and> (\<forall>mid' post'. t = pre @ ''('' @ mid' @ '')'' @ post'
                     \<and> (\<forall>c\<in>set mid'. c \<noteq> CHR 0x0A \<and> c \<noteq> CHR 0x0D)
                     \<longrightarrow> length mid' \<le> length mid)
              \<and> replaceArgs t = pre @ ''()'' @ post))
   \<and> entries (updateDataByTerm terms data) k =
       entries data k @
         map termRest
           (filter (\<lambda>e. k = pd_term e \<or>
                         (pd_type e = ''method'' \<and> testArgs (pd_term e)
                          \<and> k = replaceArgs (pd_term e)))
                   terms)
   \<and> testArgs ''foo(a, b)'' \<and> replaceArgs ''foo(a, b)'' = ''foo()'' \<and> \<not> testArgs ''foo()''"
proof -
  have step: "updateDataByTerm [e] data =
     (if pd_type e = ''method'' \<and> testArgs (pd_term e)
      then (data(pd_term e \<mapsto> entries data (pd_term e) @ [termRest e]))
               (replaceArgs (pd_term e) \<mapsto> entries data (replaceArgs (pd_term e)) @ [termRest e])
      else data(pd_term e \<mapsto> entries data (pd_term e) @ [termRest e]))"
    by (rule updateDataByTerm_single)
  have rest: "termRest e = \<lparr> te_type = pd_type e, te_spec = pd_spec e,
                      te_shortname = pd_shortname e,
                      te_status = pd_status e, te_uri = pd_uri e,
                      te_normative = pd_normative e, te_for = pd_for e \<rparr>"
    by (simp add: termRest_def)
  have test: "testArgs t \<longleftrightarrow>
        (\<exists>pre mid post. t = pre @ ''('' @ mid @ '')'' @ post \<and> mid \<noteq> []
           \<and> (\<forall>c\<in>set mid. c \<noteq> CHR 0x0A \<and> c \<noteq> CHR 0x0D))"
    unfolding testArgs_iff [of t] lineTerminator_def de_Morgan_disj by (rule refl)
  have repl: "testArgs t \<longrightarrow>
        replaceArgs t \<noteq> t
        \<and> (\<exists>pre mid post. t = pre @ ''('' @ mid @ '')'' @ post \<and> mid \<noteq> []
              \<and> (\<forall>c\<in>set mid. c \<noteq> CHR 0x0A \<and> c \<noteq> CHR 0x0D)
              \<and> (\<forall>pre' mid' post'. t = pre' @ ''('' @ mid' @ '')'' @ post' \<and> mid' \<noteq> []
                     \<and> (\<forall>c\<in>set mid'. c \<noteq> CHR 0x0A \<and> c \<noteq> CHR 0x0D)
                     \<longrightarrow> length pre \<le> length pre')
              \<and> (\<forall>mid' post'. t = pre @ ''('' @ mid' @ '')'' @ post'
                     \<and> (\<forall>c\<in>set mid'. c \<noteq> CHR 0x0A \<and> c \<noteq> CHR 0x0D)
                     \<longrightarrow> length mid' \<le> length mid)
              \<and> replaceArgs t = pre @ ''()'' @ post)"
  proof
    assume a: "testArgs t"
    from replaceArgs_exact [OF a] obtain pre mid post where
      lg: "leftmostGreedyArgs t pre mid post" and r: "replaceArgs t = pre @ ''()'' @ post"
      by blast
    note u = lg [unfolded leftmostGreedyArgs_def lineTerminator_def de_Morgan_disj]
    have "t = pre @ ''('' @ mid @ '')'' @ post \<and> mid \<noteq> []
              \<and> (\<forall>c\<in>set mid. c \<noteq> CHR 0x0A \<and> c \<noteq> CHR 0x0D)
              \<and> (\<forall>pre' mid' post'. t = pre' @ ''('' @ mid' @ '')'' @ post' \<and> mid' \<noteq> []
                     \<and> (\<forall>c\<in>set mid'. c \<noteq> CHR 0x0A \<and> c \<noteq> CHR 0x0D)
                     \<longrightarrow> length pre \<le> length pre')
              \<and> (\<forall>mid' post'. t = pre @ ''('' @ mid' @ '')'' @ post'
                     \<and> (\<forall>c\<in>set mid'. c \<noteq> CHR 0x0A \<and> c \<noteq> CHR 0x0D)
                     \<longrightarrow> length mid' \<le> length mid)
              \<and> replaceArgs t = pre @ ''()'' @ post"
      by (intro conjI u [THEN conjunct1] u [THEN conjunct2, THEN conjunct1]
            u [THEN conjunct2, THEN conjunct2, THEN conjunct1]
            u [THEN conjunct2, THEN conjunct2, THEN conjunct2, THEN conjunct1]
            u [THEN conjunct2, THEN conjunct2, THEN conjunct2, THEN conjunct2] r)
    then have "\<exists>pre mid post. t = pre @ ''('' @ mid @ '')'' @ post \<and> mid \<noteq> []
              \<and> (\<forall>c\<in>set mid. c \<noteq> CHR 0x0A \<and> c \<noteq> CHR 0x0D)
              \<and> (\<forall>pre' mid' post'. t = pre' @ ''('' @ mid' @ '')'' @ post' \<and> mid' \<noteq> []
                     \<and> (\<forall>c\<in>set mid'. c \<noteq> CHR 0x0A \<and> c \<noteq> CHR 0x0D)
                     \<longrightarrow> length pre \<le> length pre')
              \<and> (\<forall>mid' post'. t = pre @ ''('' @ mid' @ '')'' @ post'
                     \<and> (\<forall>c\<in>set mid'. c \<noteq> CHR 0x0A \<and> c \<noteq> CHR 0x0D)
                     \<longrightarrow> length mid' \<le> length mid)
              \<and> replaceArgs t = pre @ ''()'' @ post"
      by (intro exI)
    with replaceArgs_neq [OF a]
    show "replaceArgs t \<noteq> t
        \<and> (\<exists>pre mid post. t = pre @ ''('' @ mid @ '')'' @ post \<and> mid \<noteq> []
              \<and> (\<forall>c\<in>set mid. c \<noteq> CHR 0x0A \<and> c \<noteq> CHR 0x0D)
              \<and> (\<forall>pre' mid' post'. t = pre' @ ''('' @ mid' @ '')'' @ post' \<and> mid' \<noteq> []
                     \<and> (\<forall>c\<in>set mid'. c \<noteq> CHR 0x0A \<and> c \<noteq> CHR 0x0D)
                     \<longrightarrow> length pre \<le> length pre')
              \<and> (\<forall>mid' post'. t = pre @ ''('' @ mid' @ '')'' @ post'
                     \<and> (\<forall>c\<in>set mid'. c \<noteq> CHR 0x0A \<and> c \<noteq> CHR 0x0D)
                     \<longrightarrow> length mid' \<le> length mid)
              \<and> replaceArgs t = pre @ ''()'' @ post)"
      by (rule conjI)
  qed
  have batch: "entries (updateDataByTerm terms data) k =
       entries data k @
         map termRest
           (filter (\<lambda>e. k = pd_term e \<or>
                         (pd_type e = ''method'' \<and> testArgs (pd_term e)
                          \<and> k = replaceArgs (pd_term e)))
                   terms)"
    by (rule updateDataByTerm_entries)
  have ex1: "testArgs ''foo(a, b)''"
    by (simp add: matchArgsHere_def lineTerminator_def)
  have ex2: "replaceArgs ''foo(a, b)'' = ''foo()''"
    by (simp add: matchArgsHere_def lineTerminator_def)
  have ex3: "\<not> testArgs ''foo()''"
    by (simp add: matchArgsHere_def lineTerminator_def)
  show ?thesis
    apply (intro conjI)
           apply (rule step)
          apply (rule rest)
         apply (rule test)
        apply (rule repl)
       apply (rule batch)
      apply (rule ex1)
     apply (rule ex2)
    apply (rule ex3)
    done
qed

theorem updateDataByTerm_fan_out_witness:
  "updateDataByTerm [fooEntry] Map.empty ''foo(a, b)'' = Some [termRest fooEntry]
   \<and> updateDataByTerm [fooEntry] Map.empty ''foo()'' = Some [termRest fooEntry]
   \<and> updateDataByTerm [fooEntry] Map.empty ''foo'' = None
   \<and> updateDataByTerm [lengthEntry] Map.empty ''length'' = Some [termRest lengthEntry]
   \<and> updateDataByTerm [lengthEntry] Map.empty ''length()'' = None
   \<and> entries (updateDataByTerm [fooEntry, lengthEntry] Map.empty) ''foo()'' = [termRest fooEntry]
   \<and> termRest fooEntry = \<lparr> te_type = ''method'', te_spec = ''dom'', te_shortname = ''dom'',
                             te_status = ''current'', te_uri = ''#dom-node-foo'',
                             te_normative = True, te_for = Some [''Node''] \<rparr>
   \<and> testArgs (pd_term fooEntry) \<and> replaceArgs (pd_term fooEntry) = ''foo()''"
proof -
  have foo: "pd_type fooEntry = ''method''" "pd_term fooEntry = ''foo(a, b)''"
    by (simp_all add: fooEntry_def)
  have len: "pd_type lengthEntry = ''attribute''" "pd_term lengthEntry = ''length''"
    by (simp_all add: lengthEntry_def)
  note f = updateDataByTerm_fan_out
             [where e = fooEntry and data = Map.empty and t = "''foo(a, b)''"
                and terms = "[fooEntry, lengthEntry]" and k = "''foo()''"]
  note l = updateDataByTerm_fan_out
             [where e = lengthEntry and data = Map.empty and t = "''length''"
                and terms = "[]" and k = "''length''"]
  note t = f [THEN conjunct2, THEN conjunct2, THEN conjunct2, THEN conjunct2, THEN conjunct2,
               THEN conjunct1]
  note r = f [THEN conjunct2, THEN conjunct2, THEN conjunct2, THEN conjunct2, THEN conjunct2,
               THEN conjunct2, THEN conjunct1]
  from f have fs: "updateDataByTerm [fooEntry] Map.empty =
     (if pd_type fooEntry = ''method'' \<and> testArgs (pd_term fooEntry)
      then (Map.empty(pd_term fooEntry \<mapsto> entries Map.empty (pd_term fooEntry) @ [termRest fooEntry]))
               (replaceArgs (pd_term fooEntry) \<mapsto>
                  entries Map.empty (replaceArgs (pd_term fooEntry)) @ [termRest fooEntry])
      else Map.empty(pd_term fooEntry \<mapsto> entries Map.empty (pd_term fooEntry) @ [termRest fooEntry]))"
    by (rule conjunct1)
  from l have ls: "updateDataByTerm [lengthEntry] Map.empty =
     (if pd_type lengthEntry = ''method'' \<and> testArgs (pd_term lengthEntry)
      then (Map.empty(pd_term lengthEntry \<mapsto>
                        entries Map.empty (pd_term lengthEntry) @ [termRest lengthEntry]))
               (replaceArgs (pd_term lengthEntry) \<mapsto>
                  entries Map.empty (replaceArgs (pd_term lengthEntry)) @ [termRest lengthEntry])
      else Map.empty(pd_term lengthEntry \<mapsto>
                        entries Map.empty (pd_term lengthEntry) @ [termRest lengthEntry]))"
    by (rule conjunct1)
  from f have fb: "entries (updateDataByTerm [fooEntry, lengthEntry] Map.empty) ''foo()'' =
       entries Map.empty ''foo()'' @
         map termRest
           (filter (\<lambda>e. ''foo()'' = pd_term e \<or>
                         (pd_type e = ''method'' \<and> testArgs (pd_term e)
                          \<and> ''foo()'' = replaceArgs (pd_term e)))
                   [fooEntry, lengthEntry])"
    by (rule conjunct2 [THEN conjunct2, THEN conjunct2, THEN conjunct2, THEN conjunct1])
  from f have fr: "termRest fooEntry = \<lparr> te_type = pd_type fooEntry, te_spec = pd_spec fooEntry,
                      te_shortname = pd_shortname fooEntry,
                      te_status = pd_status fooEntry, te_uri = pd_uri fooEntry,
                      te_normative = pd_normative fooEntry, te_for = pd_for fooEntry \<rparr>"
    by (rule conjunct2 [THEN conjunct1])
  have 1: "updateDataByTerm [fooEntry] Map.empty =
      [''foo(a, b)'' \<mapsto> [termRest fooEntry], ''foo()'' \<mapsto> [termRest fooEntry]]"
    unfolding fs foo by (simp add: t r entries_def del: testArgs.simps replaceArgs.simps)
  have 2: "updateDataByTerm [lengthEntry] Map.empty = [''length'' \<mapsto> [termRest lengthEntry]]"
    unfolding ls len by (simp add: entries_def del: testArgs.simps replaceArgs.simps)
  have 3: "entries (updateDataByTerm [fooEntry, lengthEntry] Map.empty) ''foo()''
      = [termRest fooEntry]"
    unfolding fb by (simp add: foo len t r entries_def del: testArgs.simps replaceArgs.simps)
  have 4: "termRest fooEntry = \<lparr> te_type = ''method'', te_spec = ''dom'', te_shortname = ''dom'',
                             te_status = ''current'', te_uri = ''#dom-node-foo'',
                             te_normative = True, te_for = Some [''Node''] \<rparr>"
    unfolding fr by (simp add: fooEntry_def)
  have 5: "testArgs (pd_term fooEntry)" "replaceArgs (pd_term fooEntry) = ''foo()''"
    unfolding foo by (rule t, rule r)
  show ?thesis
    unfolding 1 2 3 using 4 5 by simp
qed

text \<open>
  Claim C9, as stated: the spec aggregator files a record under its per-spec shortname
  and strips that name from the entry. It fails for a record of a versioned
  specification: the record of \<^verbatim>\<open>css-cascade-3\<close> is filed under the series name
  \<^verbatim>\<open>css-cascade\<close>, nothing is filed under \<^verbatim>\<open>css-cascade-3\<close>, and the entry keeps the
  per-spec name.
\<close>

theorem updateDataBySpec_not_by_spec:
  "pd_spec cascadeEntry = ''css-cascade-3''
   \<and> updateDataBySpec [cascadeEntry] Map.empty ''css-cascade-3'' = None
   \<and> updateDataBySpec [cascadeEntry] Map.empty ''css-cascade'' = Some [specRest cascadeEntry]
   \<and> se_spec (specRest cascadeEntry) = ''css-cascade-3''"
  by (simp add: cascadeEntry_def pushAt_def specRest_def)

text \<open>
  Claim C9, amended: for every record the spec aggregator appends the record's fields
  without \<^verbatim>\<open>shortname\<close> (the series shortname) and \<^verbatim>\<open>isExported\<close> to the list under the
  key \<^verbatim>\<open>shortname\<close> of the record, the series shortname, creating the list if absent;
  the per-spec shortname stays in the entry, and there is one entry per record.
\<close>

theorem updateDataBySpec_by_series:
  "updateDataBySpec [e] data = data(pd_shortname e \<mapsto> entries data (pd_shortname e) @ [specRest e])
   \<and> entries (updateDataBySpec terms data) k =
       entries data k @ map specRest (filter (\<lambda>e. pd_shortname e = k) terms)
   \<and> dom (updateDataBySpec terms data) = dom data \<union> pd_shortname ` set terms
   \<and> specRest e = \<lparr> se_term = pd_term e, se_type = pd_type e, se_spec = pd_spec e,
                      se_status = pd_status e, se_uri = pd_uri e,
                      se_normative = pd_normative e, se_for = pd_for e \<rparr>"
  by (simp add: pushAt_eq updateDataBySpec_entries updateDataBySpec_dom specRest_def)

theorem updateDataBySpec_by_series_witness:
  "updateDataBySpec [cascadeEntry] Map.empty ''css-cascade'' = Some [specRest cascadeEntry]
   \<and> entries (updateDataBySpec [cascadeEntry, lengthEntry] Map.empty) ''dom''
       = [specRest lengthEntry]
   \<and> dom (updateDataBySpec [cascadeEntry, lengthEntry] Map.empty) = {''css-cascade'', ''dom''}"
proof -
  have n: "pd_shortname cascadeEntry = ''css-cascade''" "pd_shortname lengthEntry = ''dom''"
    by (simp_all add: cascadeEntry_def lengthEntry_def)
  note t = updateDataBySpec_by_series
             [of cascadeEntry Map.empty "[cascadeEntry, lengthEntry]" "''dom''"]
  from t have 1: "updateDataBySpec [cascadeEntry] Map.empty
      = [''css-cascade'' \<mapsto> [specRest cascadeEntry]]"
    by (simp add: n entries_def del: updateDataBySpec.simps)
  from t have 2: "entries (updateDataBySpec [cascadeEntry, lengthEntry] Map.empty) ''dom''
      = [specRest lengthEntry]"
    by (simp add: n entries_def del: updateDataBySpec.simps)
  from t have 3: "dom (updateDataBySpec [cascadeEntry, lengthEntry] Map.empty)
      = {''css-cascade'', ''dom''}"
    by (simp add: n del: updateDataBySpec.simps)
  show ?thesis
    unfolding 1 2 3 by simp
qed

section \<open>Claims about the parser\<close>

text \<open>
  Claim C10. The parser leaves the list of error URIs it is given as it is, and so does
  the whole loop of the driver over the sources: the list after the loop is the list
  before it.
\<close>

theorem parseData_keeps_errorURIs:
  "snd (parseData S C source errorURIs) = errorURIs
   \<and> snd (snd (processSources S C sources (dataByTerm, dataBySpec, errorURIs))) = errorURIs"
  by (simp add: parseData_snd processSources_eq)

theorem parseData_keeps_errorURIs_witness:
  "snd (parseData exampleSupported exampleCss (domSource [strayDfn]) [''earlier'']) = [''earlier'']
   \<and> snd (snd (processSources exampleSupported exampleCss [domSource [strayDfn]]
                  (Map.empty, Map.empty, []))) = []"
  using parseData_keeps_errorURIs
          [of exampleSupported exampleCss "domSource [strayDfn]" "[''earlier'']"]
        parseData_keeps_errorURIs
          [of exampleSupported exampleCss "domSource [strayDfn]" "[]" "[domSource [strayDfn]]"
              Map.empty Map.empty]
  by simp

text \<open>
  Claim C7. The records the parser returns are pairwise different; a record occurs in
  the result once if some definition and alias of the source map to it and it passes the
  filter, however often, and not at all otherwise; and the result is the filtered list
  reduced to the first occurrence of each record, in the order of the list.
\<close>

theorem parseData_dedup:
  "distinct (fst (parseData S C source errs))
   \<and> count_list (fst (parseData S C source errs)) e =
       (if e \<in> set (mapAll C source) \<and> pd_isExported e \<and> pd_type e \<in> S then 1 else 0)
   \<and> fst (parseData S C source errs) =
       (let filtered = filter (\<lambda>t. pd_isExported t \<and> pd_type t \<in> S) (mapAll C source)
        in map (\<lambda>i. filtered ! i)
               (filter (\<lambda>i. filtered ! i \<notin> set (take i filtered)) [0..<length filtered]))"
proof -
  have d: "distinct (fst (parseData S C source errs))"
    by (simp add: parseData_fst uniq_distinct)
  have c: "count_list (fst (parseData S C source errs)) e =
       (if e \<in> set (mapAll C source) \<and> pd_isExported e \<and> pd_type e \<in> S then 1 else 0)"
    using distinct_count_list [OF d, of e] by (simp add: parseData_set)
  have f: "fst (parseData S C source errs) =
       (let filtered = filter (\<lambda>t. pd_isExported t \<and> pd_type t \<in> S) (mapAll C source)
        in map (\<lambda>i. filtered ! i)
               (filter (\<lambda>i. filtered ! i \<notin> set (take i filtered)) [0..<length filtered]))"
    unfolding Let_def parseData_fst by (rule uniq_first_occurrences)
  from d c f show ?thesis by blast
qed

theorem parseData_dedup_witness:
  "fst (parseData exampleSupported exampleCss
          (domSource [eventDfn, eventDfn \<lparr> dfn_linkingText := [''Event'', ''event'', ''Event''] \<rparr>]) [])
     = [mapDefinition exampleCss eventDfn ''Event'' ''dom'' ''dom'' ''https://dom.spec.whatwg.org/'',
        mapDefinition exampleCss eventDfn ''event'' ''dom'' ''dom'' ''https://dom.spec.whatwg.org/'']
   \<and> count_list (fst (parseData exampleSupported exampleCss
          (domSource [eventDfn, eventDfn \<lparr> dfn_linkingText := [''Event'', ''event'', ''Event''] \<rparr>]) []))
        (mapDefinition exampleCss eventDfn ''Event'' ''dom'' ''dom'' ''https://dom.spec.whatwg.org/'')
     = 1"
  using parseData_dedup [of exampleSupported exampleCss
          "domSource [eventDfn, eventDfn \<lparr> dfn_linkingText := [''Event'', ''event'', ''Event''] \<rparr>]" "[]"
          "mapDefinition exampleCss eventDfn ''Event'' ''dom'' ''dom'' ''https://dom.spec.whatwg.org/''"]
  by (simp add: parseData_def mapAll_def mapDefinition_def normalizeTerm_def domSource_def
                eventDfn_def exampleSupported_def exampleCss_def)

section \<open>Claims about the contents of the indexes\<close>

text \<open>
  Claim C6. After a run that writes its files, every entry of the term index and every
  entry of the spec index comes from a definition of some source with access
  \<^verbatim>\<open>public\<close> whose kind, with the prefix \<^verbatim>\<open>css-\<close> where the mapper adds it, is a supported
  kind. The parser filters the mapped records once, before the records reach the
  aggregators: what it returns holds exported records of supported kinds only.
\<close>

theorem indexes_exported_supported:
  assumes "main S C forceUpdate updateInputSource (Inr (specMap, sources))
             = Written dataByTerm dataBySpec written"
  shows "(\<forall>k x. x \<in> set (entries dataByTerm k) \<longrightarrow>
            (\<exists>source\<in>set sources. \<exists>dfn\<in>set (src_dfns source). \<exists>trm\<in>set (dfn_linkingText dfn).
               dfn_access dfn = ''public''
               \<and> (if dfn_type dfn \<in> C then ''css-'' @ dfn_type dfn else dfn_type dfn) \<in> S
               \<and> x = termRest (mapDefinition C dfn trm
                                 (src_spec source) (src_series source) (src_url source))))
       \<and> (\<forall>k y. y \<in> set (entries dataBySpec k) \<longrightarrow>
            (\<exists>source\<in>set sources. \<exists>dfn\<in>set (src_dfns source). \<exists>trm\<in>set (dfn_linkingText dfn).
               dfn_access dfn = ''public''
               \<and> (if dfn_type dfn \<in> C then ''css-'' @ dfn_type dfn else dfn_type dfn) \<in> S
               \<and> y = specRest (mapDefinition C dfn trm
                                 (src_spec source) (src_series source) (src_url source))))
       \<and> (\<forall>source errs.
             fst (parseData S C source errs)
               = uniq (filter (\<lambda>t. pd_isExported t \<and> pd_type t \<in> S) (mapAll C source))
             \<and> (\<forall>e\<in>set (fst (parseData S C source errs)). pd_isExported e \<and> pd_type e \<in> S))"
proof -
  let ?all = "concat (map (\<lambda>s. fst (parseData S C s [])) sources)"
  obtain hasUpdated where u: "updateInputSource = Inr hasUpdated"
    using assms by (cases updateInputSource) (auto simp: main_def)
  have run: "dataByTerm = updateDataByTerm ?all Map.empty"
            "dataBySpec = updateDataBySpec ?all Map.empty"
    using assms unfolding u main_runs by (auto split: if_splits)
  have origin: "\<exists>source\<in>set sources. \<exists>dfn\<in>set (src_dfns source). \<exists>trm\<in>set (dfn_linkingText dfn).
               dfn_access dfn = ''public''
               \<and> (if dfn_type dfn \<in> C then ''css-'' @ dfn_type dfn else dfn_type dfn) \<in> S
               \<and> e = mapDefinition C dfn trm (src_spec source) (src_series source) (src_url source)"
    if "e \<in> set ?all" for e
  proof -
    from that obtain source where s: "source \<in> set sources"
      and e: "e \<in> set (fst (parseData S C source []))" by auto
    from e have m: "e \<in> set (mapAll C source)" and x: "pd_isExported e" and t: "pd_type e \<in> S"
      by (simp_all add: parseData_set)
    from m obtain dfn trm where d: "dfn \<in> set (src_dfns source)" "trm \<in> set (dfn_linkingText dfn)"
      and eq: "e = mapDefinition C dfn trm (src_spec source) (src_series source) (src_url source)"
      by (auto simp: mapAll_set)
    from x eq have "dfn_access dfn = ''public''"
      by (simp add: mapDefinition_def Let_def)
    moreover from t eq
    have "(if dfn_type dfn \<in> C then ''css-'' @ dfn_type dfn else dfn_type dfn) \<in> S"
      by (simp add: mapDefinition_def Let_def)
    ultimately show ?thesis using s d eq by blast
  qed
  have byTerm: "\<exists>e\<in>set ?all. x = termRest e" if "x \<in> set (entries dataByTerm k)" for k x
    using that unfolding run updateDataByTerm_entries by (auto simp: entries_def)
  have bySpec: "\<exists>e\<in>set ?all. y = specRest e" if "y \<in> set (entries dataBySpec k)" for k y
    using that unfolding run updateDataBySpec_entries by (auto simp: entries_def)
  have filt: "fst (parseData S C source errs)
               = uniq (filter (\<lambda>t. pd_isExported t \<and> pd_type t \<in> S) (mapAll C source))
             \<and> (\<forall>e\<in>set (fst (parseData S C source errs)). pd_isExported e \<and> pd_type e \<in> S)"
    for source errs
    by (simp add: parseData_set) (rule parseData_fst)
  show ?thesis
  proof (intro conjI allI impI)
    fix k x assume "x \<in> set (entries dataByTerm k)"
    from byTerm [OF this] obtain e where "e \<in> set ?all" "x = termRest e" by blast
    with origin [of e] show "\<exists>source\<in>set sources. \<exists>dfn\<in>set (src_dfns source).
        \<exists>trm\<in>set (dfn_linkingText dfn). dfn_access dfn = ''public''
        \<and> (if dfn_type dfn \<in> C then ''css-'' @ dfn_type dfn else dfn_type dfn) \<in> S
        \<and> x = termRest (mapDefinition C dfn trm
                          (src_spec source) (src_series source) (src_url source))"
      by blast
  next
    fix k y assume "y \<in> set (entries dataBySpec k)"
    from bySpec [OF this] obtain e where "e \<in> set ?all" "y = specRest e" by blast
    with origin [of e] show "\<exists>source\<in>set sources. \<exists>dfn\<in>set (src_dfns source).
        \<exists>trm\<in>set (dfn_linkingText dfn). dfn_access dfn = ''public''
        \<and> (if dfn_type dfn \<in> C then ''css-'' @ dfn_type dfn else dfn_type dfn) \<in> S
        \<and> y = specRest (mapDefinition C dfn trm
                          (src_spec source) (src_series source) (src_url source))"
      by blast
  next
    fix source errs
    show "fst (parseData S C source errs)
            = uniq (filter (\<lambda>t. pd_isExported t \<and> pd_type t \<in> S) (mapAll C source))"
      using filt by blast
  next
    fix source errs
    show "\<forall>e\<in>set (fst (parseData S C source errs)). pd_isExported e \<and> pd_type e \<in> S"
      using filt by blast
  qed
qed

theorem indexes_exported_supported_witness:
  "main exampleSupported exampleCss True (Inr False)
        (Inr ((), [domSource [eventDfn, privateDfn, abstractOpDfn]]))
     = Written
         (updateDataByTerm
            [\<lparr> pd_term = ''Event'', pd_isExported = True, pd_type = ''interface'',
               pd_spec = ''dom'', pd_shortname = ''dom'', pd_status = ''current'',
               pd_uri = ''#event'', pd_normative = True, pd_for = None \<rparr>] Map.empty)
         (updateDataBySpec
            [\<lparr> pd_term = ''Event'', pd_isExported = True, pd_type = ''interface'',
               pd_spec = ''dom'', pd_shortname = ''dom'', pd_status = ''current'',
               pd_uri = ''#event'', pd_normative = True, pd_for = None \<rparr>] Map.empty)
         ()
   \<and> dfn_access eventDfn = ''public'' \<and> dfn_type eventDfn \<in> exampleSupported
   \<and> dfn_access privateDfn \<noteq> ''public'' \<and> dfn_type abstractOpDfn \<notin> exampleSupported"
proof -
  let ?E = "\<lparr> pd_term = ''Event'', pd_isExported = True, pd_type = ''interface'',
               pd_spec = ''dom'', pd_shortname = ''dom'', pd_status = ''current'',
               pd_uri = ''#event'', pd_normative = True, pd_for = None \<rparr>"
  have p: "fst (parseData exampleSupported exampleCss
                  (domSource [eventDfn, privateDfn, abstractOpDfn]) []) = [?E]"
    by (simp add: parseData_def mapAll_def mapDefinition_def normalizeTerm_def domSource_def
                  eventDfn_def privateDfn_def abstractOpDfn_def exampleSupported_def
                  exampleCss_def)
  have run: "main exampleSupported exampleCss True (Inr False)
        (Inr ((), [domSource [eventDfn, privateDfn, abstractOpDfn]]))
     = Written (updateDataByTerm [?E] Map.empty) (updateDataBySpec [?E] Map.empty) ()"
    unfolding main_runs by (simp add: p del: updateDataByTerm.simps updateDataBySpec.simps)
  have kinds: "dfn_access eventDfn = ''public'' \<and> dfn_type eventDfn \<in> exampleSupported
      \<and> dfn_access privateDfn \<noteq> ''public'' \<and> dfn_type abstractOpDfn \<notin> exampleSupported"
    by (simp add: eventDfn_def privateDfn_def abstractOpDfn_def exampleSupported_def)
  from indexes_exported_supported [OF run] run kinds show ?thesis
    by blast
qed

section \<open>Claims about URI errors\<close>

text \<open>The driver never takes the exit that reports URI errors.\<close>

lemma main_no_exit: "main S C forceUpdate updateInputSource getSpecsData \<noteq> Exit1 errorURIs"
proof (cases updateInputSource)
  case (Inl err)
  then show ?thesis by (simp add: main_def)
next
  case u: (Inr hasUpdated)
  show ?thesis
  proof (cases getSpecsData)
    case (Inl err)
    with u show ?thesis by (simp add: main_def)
  next
    case (Inr pair)
    then obtain specMap sources where "getSpecsData = Inr (specMap, sources)"
      by (cases pair) simp
    with u show ?thesis by (simp add: main_runs)
  qed
qed

text \<open>
  Claim C1, at an input where it fails. The definition's \<^verbatim>\<open>href\<close> does not begin with
  the URL of its specification; the parser returns the record with the \<^verbatim>\<open>href\<close> as its
  \<^verbatim>\<open>uri\<close>, and the list of error URIs stays empty: no failure is recorded. Where the URL
  occurs inside the \<^verbatim>\<open>href\<close> and not in front, it is cut out of the middle.
\<close>

theorem uri_fix_failure_not_recorded:
  "\<not> prefix (src_url (domSource [strayDfn])) (dfn_href strayDfn)
   \<and> parseData exampleSupported exampleCss (domSource [strayDfn]) []
       = ([\<lparr> pd_term = ''Event'', pd_isExported = True, pd_type = ''interface'',
              pd_spec = ''dom'', pd_shortname = ''dom'', pd_status = ''current'',
              pd_uri = ''https://example.org/#event'', pd_normative = True,
              pd_for = None \<rparr>], [])
   \<and> \<not> prefix (src_url (domSource [nestedDfn])) (dfn_href nestedDfn)
   \<and> dfn_href nestedDfn = ''//https://dom.spec.whatwg.org/#event''
   \<and> pd_uri (mapDefinition exampleCss nestedDfn ''Event'' ''dom'' ''dom''
               (src_url (domSource [nestedDfn]))) = ''//#event''"
  by (simp add: parseData_def mapAll_def mapDefinition_def normalizeTerm_def domSource_def
                eventDfn_def strayDfn_def nestedDfn_def exampleSupported_def exampleCss_def)

text \<open>
  Claim C2, at an input where it fails. The only source holds a definition whose
  \<^verbatim>\<open>href\<close> does not begin with the URL of the specification, and the run ends with the
  three files written.
\<close>

theorem uri_fix_failure_run_writes:
  "\<not> prefix (src_url (domSource [strayDfn])) (dfn_href strayDfn)
   \<and> artifactsWritten
       (main exampleSupported exampleCss True (Inr True) (Inr ((), [domSource [strayDfn]])))
   \<and> main exampleSupported exampleCss True (Inr True) (Inr ((), [domSource [strayDfn]]))
       = Written
           (updateDataByTerm
              [\<lparr> pd_term = ''Event'', pd_isExported = True, pd_type = ''interface'',
                 pd_spec = ''dom'', pd_shortname = ''dom'', pd_status = ''current'',
                 pd_uri = ''https://example.org/#event'', pd_normative = True,
                 pd_for = None \<rparr>] Map.empty)
           (updateDataBySpec
              [\<lparr> pd_term = ''Event'', pd_isExported = True, pd_type = ''interface'',
                 pd_spec = ''dom'', pd_shortname = ''dom'', pd_status = ''current'',
                 pd_uri = ''https://example.org/#event'', pd_normative = True,
                 pd_for = None \<rparr>] Map.empty)
           ()"
proof -
  have p: "fst (parseData exampleSupported exampleCss (domSource [strayDfn]) [])
      = [\<lparr> pd_term = ''Event'', pd_isExported = True, pd_type = ''interface'',
                 pd_spec = ''dom'', pd_shortname = ''dom'', pd_status = ''current'',
                 pd_uri = ''https://example.org/#event'', pd_normative = True,
                 pd_for = None \<rparr>]"
    by (simp add: parseData_def mapAll_def mapDefinition_def normalizeTerm_def domSource_def
                  eventDfn_def strayDfn_def exampleSupported_def exampleCss_def)
  have n: "\<not> prefix (src_url (domSource [strayDfn])) (dfn_href strayDfn)"
    by (simp add: domSource_def strayDfn_def eventDfn_def)
  show ?thesis
    unfolding main_runs
    by (simp add: p n artifactsWritten_def del: updateDataByTerm.simps updateDataBySpec.simps)
qed

text \<open>
  What the mapper does with the \<^verbatim>\<open>href\<close>: a URL in front is cut off, and an \<^verbatim>\<open>href\<close>
  that does not hold the URL is kept.
\<close>

lemma mapDefinition_uri_prefix:
  "prefix specurl (dfn_href dfn) \<Longrightarrow>
     pd_uri (mapDefinition C dfn trm spec series specurl) = drop (length specurl) (dfn_href dfn)"
  by (simp add: mapDefinition_def Let_def replaceFirst_prefix)

lemma mapDefinition_uri_absent:
  "\<not> (\<exists>pre post. dfn_href dfn = pre @ specurl @ post) \<Longrightarrow>
     pd_uri (mapDefinition C dfn trm spec series specurl) = dfn_href dfn"
  by (simp add: mapDefinition_def Let_def replaceFirst_absent)

end
